theory Spec2Isabelle
  imports Main "HOL-Library.Word" "HOL-Library.Sublist"
begin

section \<open>JavaScript strings\<close>

text \<open>
  A JavaScript string is a sequence of UTF-16 code units. String literals of the source
  are ASCII; \<open>lit\<close> embeds them.
\<close>

type_synonym unit16 = "16 word"
type_synonym jsstring = "unit16 list"

definition lit :: "string \<Rightarrow> jsstring" where
  "lit s = map (\<lambda>c. of_nat (of_char c)) s"

text \<open>
  The code units that \<open>String.prototype.trim\<close> strips and that the regular
  expression class \<open>\s\<close> matches (ECMAScript WhiteSpace and LineTerminator): TAB, LF,
  VT, FF, CR, SP, NBSP, U+1680, U+2000..U+200A, U+2028, U+2029, U+202F, U+205F, U+3000
  and U+FEFF.
\<close>

definition is_space :: "unit16 \<Rightarrow> bool" where
  "is_space c =
     (c = 0x09 \<or> c = 0x0A \<or> c = 0x0B \<or> c = 0x0C \<or> c = 0x0D \<or> c = 0x20 \<or> c = 0xA0
      \<or> c = 0x1680 \<or> (0x2000 \<le> c \<and> c \<le> 0x200A) \<or> c = 0x2028 \<or> c = 0x2029
      \<or> c = 0x202F \<or> c = 0x205F \<or> c = 0x3000 \<or> c = 0xFEFF)"

definition trim :: "jsstring \<Rightarrow> jsstring" where
  "trim s = rev (dropWhile is_space (rev (dropWhile is_space s)))"

text \<open>A string is truthy exactly when it is not empty.\<close>

definition truthy :: "jsstring \<Rightarrow> bool" where
  "truthy s = (s \<noteq> [])"

section \<open>The email pattern\<close>

text \<open>
  The regular expressions of the source are sequences of single-character atoms, each
  taken once or one-or-more times (\<open>+\<close>), anchored at both ends by \<open>^\<close> and \<open>$\<close>.
  \<open>NotSpaceAt\<close> is the class \<open>[^\s@]\<close>, \<open>Chr c\<close> a literal character.
\<close>

datatype atom = NotSpaceAt | Chr unit16

datatype item = Once atom | Plus atom

definition at_sign :: unit16 where
  "at_sign = 0x40"

definition full_stop :: unit16 where
  "full_stop = 0x2E"

fun accepts :: "atom \<Rightarrow> unit16 \<Rightarrow> bool" where
  "accepts NotSpaceAt c = (\<not> is_space c \<and> c \<noteq> at_sign)"
| "accepts (Chr d) c = (c = d)"

text \<open>
  \<open>test p s\<close>: the anchored pattern \<open>p\<close> matches the whole of \<open>s\<close>. A \<open>+\<close> item
  is greedy and backtracks: it first tries to take one more character, then to go on
  with the rest of the pattern.
\<close>

fun test :: "item list \<Rightarrow> jsstring \<Rightarrow> bool" where
  "test [] s = (s = [])"
| "test (Once a # p) [] = False"
| "test (Once a # p) (c # s) = (accepts a c \<and> test p s)"
| "test (Plus a # p) [] = False"
| "test (Plus a # p) (c # s) = (accepts a c \<and> (test (Plus a # p) s \<or> test p s))"

text \<open>\<^verbatim>\<open>/^[^\s@]+@[^\s@]+\.[^\s@]+$/\<close>\<close>

definition emailPattern :: "item list" where
  "emailPattern =
     [Plus NotSpaceAt, Once (Chr at_sign), Plus NotSpaceAt, Once (Chr full_stop),
      Plus NotSpaceAt]"

section \<open>Form validation\<close>

text \<open>
  The values a property of the form data can hold. \<open>trim\<close> is a method of strings
  only: on \<open>undefined\<close> and \<open>null\<close> the optional chaining \<open>?.\<close> yields
  \<open>undefined\<close>, on any other value that is not a string the call throws a TypeError.
\<close>

datatype jsval = Undefined | Null | Str jsstring | Bool bool

datatype error = TypeError

type_synonym formdata = "string \<rightharpoonup> jsval"

text \<open>Reading a property of a plain object: an absent key reads as \<open>undefined\<close>.\<close>

definition property :: "formdata \<Rightarrow> string \<Rightarrow> jsval" where
  "property data k = (case data k of None \<Rightarrow> Undefined | Some v \<Rightarrow> v)"

text \<open>\<open>!v?.trim()\<close>: whether the field counts as missing, or the TypeError.\<close>

fun not_trimmed :: "jsval \<Rightarrow> error + bool" where
  "not_trimmed Undefined = Inr True"
| "not_trimmed Null = Inr True"
| "not_trimmed (Str s) = Inr (\<not> truthy (trim s))"
| "not_trimmed (Bool b) = Inl TypeError"

text \<open>
  \<open>RegExp.prototype.test\<close> converts its argument to a string. In \<open>validateForm\<close>
  it is applied to \<open>data.email\<close> itself, and is reached only with a string.
\<close>

fun email_test :: "jsval \<Rightarrow> bool" where
  "email_test (Str s) = test emailPattern s"
| "email_test Undefined = test emailPattern (lit ''undefined'')"
| "email_test Null = test emailPattern (lit ''null'')"
| "email_test (Bool b) = test emailPattern (lit (if b then ''true'' else ''false''))"

text \<open>The three checks of \<open>validateForm\<close>, each pushing onto \<open>errors\<close>.\<close>

definition check_name :: "formdata \<Rightarrow> jsstring list \<Rightarrow> error + jsstring list" where
  "check_name data errors =
     (case not_trimmed (property data ''name'') of
        Inl e \<Rightarrow> Inl e
      | Inr missing \<Rightarrow>
          Inr (if missing then errors @ [lit ''Name is required.''] else errors))"

definition check_email :: "formdata \<Rightarrow> jsstring list \<Rightarrow> error + jsstring list" where
  "check_email data errors =
     (case not_trimmed (property data ''email'') of
        Inl e \<Rightarrow> Inl e
      | Inr missing \<Rightarrow>
          Inr (if missing then errors @ [lit ''Email is required.'']
               else if \<not> email_test (property data ''email'')
               then errors @ [lit ''Please enter a valid email address.'']
               else errors))"

definition check_message :: "formdata \<Rightarrow> jsstring list \<Rightarrow> error + jsstring list" where
  "check_message data errors =
     (case not_trimmed (property data ''message'') of
        Inl e \<Rightarrow> Inl e
      | Inr missing \<Rightarrow>
          Inr (if missing then errors @ [lit ''Message is required.''] else errors))"

definition validateForm :: "formdata \<Rightarrow> error + jsstring list" where
  "validateForm data =
     (case check_name data [] of
        Inl e \<Rightarrow> Inl e
      | Inr errors \<Rightarrow>
          (case check_email data errors of
             Inl e \<Rightarrow> Inl e
           | Inr errors \<Rightarrow> check_message data errors))"

text \<open>A FormInput whose three fields are strings.\<close>

definition form :: "jsstring \<Rightarrow> jsstring \<Rightarrow> jsstring \<Rightarrow> formdata" where
  "form n e m = [''name'' \<mapsto> Str n, ''email'' \<mapsto> Str e, ''message'' \<mapsto> Str m]"

section \<open>Field validation\<close>

text \<open>
  The attributes of a form control that \<open>validateField\<close> reads: its \<open>value\<close>, its
  \<open>type\<close>, its \<open>tagName\<close>, the \<open>required\<close> flag and the list of its labels.
\<close>

record label =
  textContent :: jsstring

record field =
  field_value :: jsstring
  field_type :: jsstring
  tagName :: jsstring
  required :: bool
  labels :: "label list"

text \<open>
  \<open>showFieldError(field, message)\<close> and \<open>hideFieldError(field)\<close> only render; the
  model records which of them \<open>validateField\<close> calls, and with which message.
\<close>

datatype rendering = ShowFieldError jsstring | HideFieldError

text \<open>\<open>field.labels[0]?.textContent || 'This field'\<close>\<close>

definition label_text :: "field \<Rightarrow> jsstring" where
  "label_text f =
     (case labels f of
        [] \<Rightarrow> lit ''This field''
      | l # ls \<Rightarrow> if truthy (textContent l) then textContent l else lit ''This field'')"

text \<open>
  \<open>field.type || field.tagName.toLowerCase()\<close>. \<open>String.prototype.toLowerCase\<close> is
  the host's Unicode case mapping; it is a parameter of the model.
\<close>

definition fieldType :: "(jsstring \<Rightarrow> jsstring) \<Rightarrow> field \<Rightarrow> jsstring" where
  "fieldType toLowerCase f =
     (if truthy (field_type f) then field_type f else toLowerCase (tagName f))"

text \<open>The value of the variable \<open>error\<close> when \<open>validateField\<close> reaches its last test.\<close>

definition field_error :: "(jsstring \<Rightarrow> jsstring) \<Rightarrow> field \<Rightarrow> jsstring" where
  "field_error toLowerCase f =
     (let v = trim (field_value f);
          error = [];
          error = (if required f \<and> \<not> truthy v
                   then label_text f @ lit '' is required.'' else error);
          error = (if fieldType toLowerCase f = lit ''email'' \<and> truthy v
                   then (if \<not> test emailPattern v
                         then lit ''Please enter a valid email address.'' else error)
                   else error)
      in error)"

definition validateField :: "(jsstring \<Rightarrow> jsstring) \<Rightarrow> field \<Rightarrow> rendering \<times> bool" where
  "validateField toLowerCase f =
     (let error = field_error toLowerCase f
      in if truthy error then (ShowFieldError error, False) else (HideFieldError, True))"

section \<open>The timer queue of the event loop\<close>

text \<open>
  A single-threaded host with a virtual clock in milliseconds. \<open>queue\<close> holds the
  pending timers in the order of their registration, each with its handle, the time it
  is due and its callback; \<open>vars\<close> holds the variable that the wrapper closes over;
  \<open>calls\<close> logs every \<open>func.apply(context, args)\<close> with the time of the call.
\<close>

record ('v, 'c, 'a) world =
  clock :: nat
  next_id :: nat
  queue :: "(nat \<times> nat \<times> 'c) list"
  vars :: 'v
  calls :: "(nat \<times> 'a) list"

definition init :: "'v \<Rightarrow> ('v, 'c, 'a) world" where
  "init v = \<lparr>clock = 0, next_id = 1, queue = [], vars = v, calls = []\<rparr>"

definition setTimeout :: "'c \<Rightarrow> nat \<Rightarrow> ('v, 'c, 'a) world \<Rightarrow> nat \<times> ('v, 'c, 'a) world" where
  "setTimeout cb delay w =
     (next_id w,
      w\<lparr>queue := queue w @ [(next_id w, clock w + delay, cb)], next_id := Suc (next_id w)\<rparr>)"

text \<open>\<open>clearTimeout\<close> of \<open>undefined\<close> or \<open>null\<close> does nothing.\<close>

fun clearTimeout :: "nat option \<Rightarrow> ('v, 'c, 'a) world \<Rightarrow> ('v, 'c, 'a) world" where
  "clearTimeout None w = w"
| "clearTimeout (Some i) w = w\<lparr>queue := filter (\<lambda>(j, due, cb). j \<noteq> i) (queue w)\<rparr>"

definition apply_func :: "'a \<Rightarrow> ('v, 'c, 'a) world \<Rightarrow> ('v, 'c, 'a) world" where
  "apply_func args w = w\<lparr>calls := calls w @ [(clock w, args)]\<rparr>"

text \<open>
  The event loop runs for \<open>d\<close> milliseconds: the timers due by then fire in the order
  of their due times (registration order among equals), each at its due time. The
  callbacks of this program register and clear no timers, so \<open>fire\<close> changes the
  variables and the log only.
\<close>

definition elapse ::
  "('c \<Rightarrow> ('v, 'c, 'a) world \<Rightarrow> ('v, 'c, 'a) world) \<Rightarrow> nat \<Rightarrow> ('v, 'c, 'a) world \<Rightarrow>
     ('v, 'c, 'a) world" where
  "elapse fire d w =
     (let t = clock w + d;
          ready = sort_key (\<lambda>(i, due, cb). due) (filter (\<lambda>(i, due, cb). due \<le> t) (queue w));
          w = w\<lparr>queue := filter (\<lambda>(i, due, cb). \<not> due \<le> t) (queue w)\<rparr>;
          w = fold (\<lambda>(i, due, cb) w. fire cb (w\<lparr>clock := max (clock w) due\<rparr>)) ready w
      in w\<lparr>clock := t\<rparr>)"

datatype 'a event = Invoke 'a | Elapse nat

section \<open>Throttle\<close>







section \<open>Debounce\<close>

text \<open>
  The closure variable \<open>timeout\<close> is \<open>undefined\<close> or \<open>null\<close> (\<open>None\<close>) or the
  handle of a timer, a positive number and so truthy. The callback \<open>later\<close> closes over
  the arguments of the call that registered it.
\<close>

datatype 'a debounce_callback = Later 'a

type_synonym 'a debounce_world = "(nat option, 'a debounce_callback, 'a) world"

text \<open>
  One call of the function that \<open>debounce(func, wait, immediate)\<close> returns; the
  wrapper starts in the world \<open>init None\<close>.
\<close>

definition debounce :: "nat \<Rightarrow> bool \<Rightarrow> 'a \<Rightarrow> 'a debounce_world \<Rightarrow> 'a debounce_world" where
  "debounce wait immediate args w =
     (let callNow = (immediate \<and> vars w = None);
          w = clearTimeout (vars w) w;
          (i, w) = setTimeout (Later args) wait w;
          w = w\<lparr>vars := Some i\<rparr>
      in if callNow then apply_func args w else w)"

fun later :: "bool \<Rightarrow> 'a debounce_callback \<Rightarrow> 'a debounce_world \<Rightarrow> 'a debounce_world" where
  "later immediate (Later args) w =
     (let w = w\<lparr>vars := None\<rparr>
      in if \<not> immediate then apply_func args w else w)"

fun debounce_step :: "nat \<Rightarrow> bool \<Rightarrow> 'a event \<Rightarrow> 'a debounce_world \<Rightarrow> 'a debounce_world" where
  "debounce_step wait immediate (Invoke args) w = debounce wait immediate args w"
| "debounce_step wait immediate (Elapse d) w = elapse (later immediate) d w"

definition debounce_run :: "nat \<Rightarrow> bool \<Rightarrow> 'a event list \<Rightarrow> 'a debounce_world" where
  "debounce_run wait immediate evs = fold (debounce_step wait immediate) evs (init None)"

text \<open>
  A burst after its first call: further calls, each less than \<open>wait\<close> milliseconds
  after the one before it.
\<close>

fun burst :: "(nat \<times> 'a) list \<Rightarrow> 'a event list" where
  "burst [] = []"
| "burst ((gap, args) # rest) = Elapse gap # Invoke args # burst rest"

section \<open>Auxiliary definitions\<close>

text \<open>A required text input with the label "Name", as in the contact form.\<close>

definition name_field :: "jsstring \<Rightarrow> field" where
  "name_field v = \<lparr>field_value = v, field_type = lit ''text'', tagName = lit ''INPUT'',
     required = True, labels = [\<lparr>textContent = lit ''Name''\<rparr>]\<rparr>"

text \<open>The required email input of the contact form, with the label "Email".\<close>

definition email_field :: "jsstring \<Rightarrow> field" where
  "email_field v = \<lparr>field_value = v, field_type = lit ''email'', tagName = lit ''INPUT'',
     required = True, labels = [\<lparr>textContent = lit ''Email''\<rparr>]\<rparr>"


text \<open>
  What holds of the world of a debounced function after any sequence of events: the
  pending timers are exactly the one whose handle \<open>timeout\<close> holds.
\<close>

definition debounce_inv :: "'a debounce_world \<Rightarrow> bool" where
  "debounce_inv w =
     (case vars w of
        None \<Rightarrow> queue w = []
      | Some i \<Rightarrow> (\<exists>due args. queue w = [(i, due, Later args)]))"

section \<open>What the email pattern matches\<close>








section \<open>Properties of form validation\<close>

lemma validateForm_form:
  "validateForm (form n e m) =
     Inr ((if trim n = [] then [lit ''Name is required.''] else []) @
          (if trim e = [] then [lit ''Email is required.'']
           else if \<not> test emailPattern e then [lit ''Please enter a valid email address.'']
           else []) @
          (if trim m = [] then [lit ''Message is required.''] else []))"
  by (simp add: validateForm_def check_name_def check_email_def check_message_def form_def
      property_def truthy_def)

lemma messages_distinct:
  "lit ''Email is required.'' \<noteq> lit ''Please enter a valid email address.''"
  "lit ''Name is required.'' \<noteq> lit ''Email is required.''"
  "lit ''Name is required.'' \<noteq> lit ''Please enter a valid email address.''"
  "lit ''Name is required.'' \<noteq> lit ''Message is required.''"
  "lit ''Message is required.'' \<noteq> lit ''Email is required.''"
  "lit ''Message is required.'' \<noteq> lit ''Please enter a valid email address.''"
  by (simp_all add: lit_def)

lemma validateForm_cases:
  assumes "validateForm data = Inr errs"
  shows "\<exists>a b c. not_trimmed (property data ''name'') = Inr a \<and>
           not_trimmed (property data ''email'') = Inr b \<and>
           not_trimmed (property data ''message'') = Inr c \<and>
           errs = (if a then [lit ''Name is required.''] else []) @
             (if b then [lit ''Email is required.'']
              else if \<not> email_test (property data ''email'')
              then [lit ''Please enter a valid email address.''] else []) @
             (if c then [lit ''Message is required.''] else [])"
proof -
  obtain a where a: "not_trimmed (property data ''name'') = Inr a"
    using assms
    by (cases "not_trimmed (property data ''name'')")
      (simp_all add: validateForm_def check_name_def)
  obtain b where b: "not_trimmed (property data ''email'') = Inr b"
    using assms a
    by (cases "not_trimmed (property data ''email'')")
      (simp_all add: validateForm_def check_name_def check_email_def)
  obtain c where c: "not_trimmed (property data ''message'') = Inr c"
    using assms a b
    by (cases "not_trimmed (property data ''message'')")
      (simp_all add: validateForm_def check_name_def check_email_def check_message_def)
  have "validateForm data = Inr ((if a then [lit ''Name is required.''] else []) @
             (if b then [lit ''Email is required.'']
              else if \<not> email_test (property data ''email'')
              then [lit ''Please enter a valid email address.''] else []) @
             (if c then [lit ''Message is required.''] else []))"
    by (simp add: validateForm_def check_name_def check_email_def check_message_def a b c)
  with assms a b c show ?thesis by simp
qed

lemma space_units:
  "is_space 0x20" "\<not> is_space 0x61" "\<not> is_space 0x62" "\<not> is_space 0x63"
  "\<not> is_space 0x40" "\<not> is_space 0x2E" "\<not> is_space 0x78" "\<not> is_space 0x79"
  by (simp_all add: is_space_def)

lemma validateForm_invalid_email:
  "validateForm (form [] (lit ''a'') (lit ''y'')) =
     Inr [lit ''Name is required.'', lit ''Please enter a valid email address.'']"
proof -
  have "trim [] = []" "trim (lit ''a'') \<noteq> []" "trim (lit ''y'') \<noteq> []"
    by (simp_all add: trim_def lit_def space_units)
  moreover have "\<not> test emailPattern (lit ''a'')"
    by (simp add: emailPattern_def lit_def space_units at_sign_def)
  ultimately show ?thesis
    by (simp add: validateForm_form)
qed

text \<open>
  Claim C1. The claim: whenever the trimmed email value is not empty and matches the email
  pattern, the list returned by \<open>validateForm\<close> does not contain "Please enter a valid
  email address.". The code trims the email for the emptiness test only and applies the
  pattern to \<open>data.email\<close> as given: for the email \<open>" a@b.c"\<close>, whose trimmed value
  \<open>"a@b.c"\<close> matches the pattern, \<open>validateForm\<close> returns exactly that message.
\<close>

theorem validateForm_untrimmed_email:
  "trim (lit '' a@b.c'') = lit ''a@b.c'' \<and>
   test emailPattern (trim (lit '' a@b.c'')) \<and>
   validateForm (form (lit ''x'') (lit '' a@b.c'') (lit ''y'')) =
     Inr [lit ''Please enter a valid email address.'']"
proof -
  have t: "trim (lit '' a@b.c'') = lit ''a@b.c''"
    by (simp add: trim_def lit_def space_units)
  have m: "test emailPattern (lit ''a@b.c'')"
    by (simp add: emailPattern_def lit_def space_units at_sign_def full_stop_def)
  have n: "\<not> test emailPattern (lit '' a@b.c'')"
    by (simp add: emailPattern_def lit_def space_units)
  have x: "trim (lit ''x'') \<noteq> []" "trim (lit ''y'') \<noteq> []"
    by (simp_all add: trim_def lit_def space_units)
  have e: "lit ''a@b.c'' \<noteq> []"
    by (simp add: lit_def)
  show ?thesis
    using t m n x e by (simp add: validateForm_form)
qed





text \<open>
  Claim C3. \<open>validateForm\<close> applied to the mapping of \<open>name\<close>, \<open>email\<close> and
  \<open>message\<close> to the empty string returns exactly the list "Name is required.",
  "Email is required.", "Message is required.", in that order.
\<close>

theorem validateForm_all_empty:
  "validateForm [''name'' \<mapsto> Str (lit ''''), ''email'' \<mapsto> Str (lit ''''),
                 ''message'' \<mapsto> Str (lit '''')] =
     Inr [lit ''Name is required.'', lit ''Email is required.'', lit ''Message is required.'']"
proof -
  have "validateForm (form [] [] []) =
     Inr [lit ''Name is required.'', lit ''Email is required.'', lit ''Message is required.'']"
    by (simp add: validateForm_form trim_def)
  then show ?thesis by (simp add: form_def lit_def)
qed

text \<open>
  Claim C4. Every list that \<open>validateForm\<close> returns is a subsequence of
  "Name is required.", the email error, "Message is required.", where the email error is
  "Email is required." or "Please enter a valid email address.": the field order is kept
  and each field contributes at most one of the fixed messages.
\<close>

theorem validateForm_order:
  assumes "validateForm data = Inr errs"
  shows "\<exists>email_error.
           (email_error = lit ''Email is required.'' \<or>
            email_error = lit ''Please enter a valid email address.'') \<and>
           subseq errs [lit ''Name is required.'', email_error, lit ''Message is required.'']"
proof -
  from validateForm_cases [OF assms] obtain a b c where
    errs: "errs = (if a then [lit ''Name is required.''] else []) @
             (if b then [lit ''Email is required.'']
              else if \<not> email_test (property data ''email'')
              then [lit ''Please enter a valid email address.''] else []) @
             (if c then [lit ''Message is required.''] else [])"
    by blast
  show ?thesis
  proof (cases b)
    case True
    with errs have "subseq errs [lit ''Name is required.'', lit ''Email is required.'', lit ''Message is required.'']"
      by (cases a; cases c) (simp_all add: messages_distinct)
    then show ?thesis by blast
  next
    case False
    with errs have "subseq errs [lit ''Name is required.'', lit ''Please enter a valid email address.'', lit ''Message is required.'']"
      by (cases a; cases c; cases "email_test (property data ''email'')") (simp_all add: messages_distinct)
    then show ?thesis by blast
  qed
qed

theorem validateForm_order_witness:
  "validateForm (form [] (lit ''a'') (lit ''y'')) =
     Inr [lit ''Name is required.'', lit ''Please enter a valid email address.''] \<and>
   (\<exists>email_error.
      (email_error = lit ''Email is required.'' \<or>
       email_error = lit ''Please enter a valid email address.'') \<and>
      subseq [lit ''Name is required.'', lit ''Please enter a valid email address.'']
        [lit ''Name is required.'', email_error, lit ''Message is required.''])"
  using validateForm_order [OF validateForm_invalid_email] validateForm_invalid_email
  by simp

text \<open>
  Claim C5. No list that \<open>validateForm\<close> returns contains both "Email is required."
  and "Please enter a valid email address."; errors of different fields do occur
  together, as for a missing name with a malformed email.
\<close>

theorem validateForm_email_exclusive:
  "(validateForm data = Inr errs \<longrightarrow>
      \<not> (lit ''Email is required.'' \<in> set errs \<and>
         lit ''Please enter a valid email address.'' \<in> set errs)) \<and>
   validateForm (form [] (lit ''a'') (lit ''y'')) =
     Inr [lit ''Name is required.'', lit ''Please enter a valid email address.'']"
proof (intro conjI impI)
  assume v: "validateForm data = Inr errs"
  from validateForm_cases [OF v] obtain a b c where
    errs: "errs = (if a then [lit ''Name is required.''] else []) @
             (if b then [lit ''Email is required.'']
              else if \<not> email_test (property data ''email'')
              then [lit ''Please enter a valid email address.''] else []) @
             (if c then [lit ''Message is required.''] else [])"
    by blast
  show "\<not> (lit ''Email is required.'' \<in> set errs \<and>
         lit ''Please enter a valid email address.'' \<in> set errs)"
    unfolding errs using messages_distinct by (auto split: if_splits)
next
  show "validateForm (form [] (lit ''a'') (lit ''y'')) =
     Inr [lit ''Name is required.'', lit ''Please enter a valid email address.'']"
    by (rule validateForm_invalid_email)
qed

theorem validateForm_email_exclusive_witness:
  "validateForm (form [] (lit ''a'') (lit ''y'')) =
     Inr [lit ''Name is required.'', lit ''Please enter a valid email address.''] \<and>
   \<not> (lit ''Email is required.'' \<in>
        set [lit ''Name is required.'', lit ''Please enter a valid email address.''] \<and>
      lit ''Please enter a valid email address.'' \<in>
        set [lit ''Name is required.'', lit ''Please enter a valid email address.''])"
  using validateForm_email_exclusive
    [of "form [] (lit ''a'') (lit ''y'')"
      "[lit ''Name is required.'', lit ''Please enter a valid email address.'']"]
  by blast

lemma not_trimmed_absent:
  "not_trimmed (property (data(k := None)) j) = Inr True \<and>
   not_trimmed (property (data(k \<mapsto> Str [])) j) = Inr True \<or>
   property (data(k := None)) j = property (data(k \<mapsto> Str [])) j"
  by (simp add: property_def trim_def truthy_def)

lemma check_name_absent:
  "check_name (data(k := None)) errors = check_name (data(k \<mapsto> Str [])) errors"
  using not_trimmed_absent [of data k "''name''"] by (auto simp add: check_name_def)

lemma check_email_absent:
  "check_email (data(k := None)) errors = check_email (data(k \<mapsto> Str [])) errors"
  using not_trimmed_absent [of data k "''email''"] by (auto simp add: check_email_def)

lemma check_message_absent:
  "check_message (data(k := None)) errors = check_message (data(k \<mapsto> Str [])) errors"
  using not_trimmed_absent [of data k "''message''"] by (auto simp add: check_message_def)

lemma not_trimmed_string_or_absent:
  "v = Undefined \<or> (\<exists>s. v = Str s) \<Longrightarrow>
     \<exists>b. not_trimmed v = Inr b \<and> (v = Undefined \<longrightarrow> b)"
  by auto

text \<open>
  Claim C10. When each of \<open>name\<close>, \<open>email\<close> and \<open>message\<close> is absent
  (\<open>undefined\<close>) or a string, \<open>validateForm\<close> returns a list and throws nothing, the
  list holds the "... is required." message of every absent field, and a mapping with a
  key removed is validated exactly as with that key set to the empty string.
\<close>

theorem validateForm_partial:
  assumes "\<forall>k\<in>{''name'', ''email'', ''message''}.
             property data k = Undefined \<or> (\<exists>s. property data k = Str s)"
  shows "(\<exists>errs. validateForm data = Inr errs \<and>
            (property data ''name'' = Undefined \<longrightarrow> lit ''Name is required.'' \<in> set errs) \<and>
            (property data ''email'' = Undefined \<longrightarrow> lit ''Email is required.'' \<in> set errs) \<and>
            (property data ''message'' = Undefined \<longrightarrow>
               lit ''Message is required.'' \<in> set errs)) \<and>
         (\<forall>k. validateForm (data(k := None)) = validateForm (data(k \<mapsto> Str [])))"
proof -
  from assms obtain a where a: "not_trimmed (property data ''name'') = Inr a"
    "property data ''name'' = Undefined \<longrightarrow> a"
    using not_trimmed_string_or_absent [of "property data ''name''"] by auto
  from assms obtain b where b: "not_trimmed (property data ''email'') = Inr b"
    "property data ''email'' = Undefined \<longrightarrow> b"
    using not_trimmed_string_or_absent [of "property data ''email''"] by auto
  from assms obtain c where c: "not_trimmed (property data ''message'') = Inr c"
    "property data ''message'' = Undefined \<longrightarrow> c"
    using not_trimmed_string_or_absent [of "property data ''message''"] by auto
  have "validateForm data = Inr ((if a then [lit ''Name is required.''] else []) @
             (if b then [lit ''Email is required.'']
              else if \<not> email_test (property data ''email'')
              then [lit ''Please enter a valid email address.''] else []) @
             (if c then [lit ''Message is required.''] else []))"
    by (simp add: validateForm_def check_name_def check_email_def check_message_def a b c)
  with a(2) b(2) c(2) have first: "\<exists>errs. validateForm data = Inr errs \<and>
            (property data ''name'' = Undefined \<longrightarrow> lit ''Name is required.'' \<in> set errs) \<and>
            (property data ''email'' = Undefined \<longrightarrow> lit ''Email is required.'' \<in> set errs) \<and>
            (property data ''message'' = Undefined \<longrightarrow>
               lit ''Message is required.'' \<in> set errs)"
    by simp
  have "\<forall>k. validateForm (data(k := None)) = validateForm (data(k \<mapsto> Str []))"
    unfolding validateForm_def check_name_absent check_email_absent check_message_absent
    by simp
  with first show ?thesis by blast
qed

theorem validateForm_partial_witness:
  "(\<exists>errs. validateForm Map.empty = Inr errs \<and>
      lit ''Name is required.'' \<in> set errs \<and>
      lit ''Email is required.'' \<in> set errs \<and>
      lit ''Message is required.'' \<in> set errs) \<and>
   validateForm (Map.empty(''email'' := None)) = validateForm [''email'' \<mapsto> Str []]"
proof -
  have h: "\<forall>k\<in>{''name'', ''email'', ''message''}.
             property Map.empty k = Undefined \<or> (\<exists>s. property Map.empty k = Str s)"
    by (simp add: property_def)
  have u: "property Map.empty ''name'' = Undefined" "property Map.empty ''email'' = Undefined"
    "property Map.empty ''message'' = Undefined"
    by (simp_all add: property_def)
  show ?thesis
    using validateForm_partial [OF h] u by blast
qed

section \<open>Properties of field validation\<close>

lemma nonempty_messages:
  "lit '' is required.'' \<noteq> []"
  "lit ''Please enter a valid email address.'' \<noteq> []"
  by (simp_all add: lit_def)

lemma validateField_iff:
  "snd (validateField toLowerCase f) \<longleftrightarrow>
     \<not> ((required f \<and> trim (field_value f) = []) \<or>
        (fieldType toLowerCase f = lit ''email'' \<and> trim (field_value f) \<noteq> [] \<and>
         \<not> test emailPattern (trim (field_value f))))"
  by (simp add: validateField_def field_error_def truthy_def Let_def nonempty_messages)

text \<open>
  Claim C6. \<open>validateField\<close> returns false exactly when the field is required and its
  trimmed value is empty, or its type is "email" and its trimmed value is not empty and
  does not match the email pattern. In particular a required field with an empty trimmed
  value yields false, and the same field with a non-empty valid text yields true.
\<close>

theorem validateField_result:
  "(snd (validateField toLowerCase f) = False \<longleftrightarrow>
      (required f \<and> trim (field_value f) = []) \<or>
      (fieldType toLowerCase f = lit ''email'' \<and> trim (field_value f) \<noteq> [] \<and>
       \<not> test emailPattern (trim (field_value f)))) \<and>
   (required f \<and> trim (field_value f) = [] \<longrightarrow> snd (validateField toLowerCase f) = False) \<and>
   (trim v \<noteq> [] \<and>
    (fieldType toLowerCase (f\<lparr>field_value := v\<rparr>) = lit ''email'' \<longrightarrow>
       test emailPattern (trim v)) \<longrightarrow>
      snd (validateField toLowerCase (f\<lparr>field_value := v\<rparr>)) = True)"
  unfolding validateField_iff by auto

theorem validateField_result_witness:
  "required (name_field []) \<and> trim (field_value (name_field [])) = [] \<and>
   snd (validateField (\<lambda>s. s) (name_field [])) = False \<and>
   trim (lit ''a'') \<noteq> [] \<and>
   snd (validateField (\<lambda>s. s) (name_field (lit ''a''))) = True \<and>
   fieldType (\<lambda>s. s) (email_field (lit '' a@b.c'')) = lit ''email'' \<and>
   trim (lit '' a@b.c'') \<noteq> [] \<and> test emailPattern (trim (lit '' a@b.c'')) \<and>
   snd (validateField (\<lambda>s. s) (email_field (lit '' a@b.c''))) = True"
proof -
  have r: "required (name_field [])" "trim (field_value (name_field [])) = []"
    by (simp_all add: name_field_def trim_def)
  have t: "trim (lit ''a'') \<noteq> []"
    by (simp add: trim_def lit_def space_units)
  have k: "fieldType (\<lambda>s. s) ((name_field [])\<lparr>field_value := lit ''a''\<rparr>) \<noteq> lit ''email''"
    by (simp add: fieldType_def name_field_def truthy_def lit_def)
  have u: "(name_field [])\<lparr>field_value := lit ''a''\<rparr> = name_field (lit ''a'')"
    by (simp add: name_field_def)
  have n: "snd (validateField (\<lambda>s. s) (name_field [])) = False"
    "snd (validateField (\<lambda>s. s) (name_field (lit ''a''))) = True"
    using validateField_result [of "\<lambda>s. s" "name_field []" "lit ''a''"] r t k u by simp_all
  have e: "fieldType (\<lambda>s. s) (email_field (lit '' a@b.c'')) = lit ''email''"
    by (simp add: fieldType_def email_field_def truthy_def lit_def)
  have s: "trim (lit '' a@b.c'') = lit ''a@b.c''"
    by (simp add: trim_def lit_def space_units)
  have m: "test emailPattern (lit ''a@b.c'')"
    by (simp add: emailPattern_def lit_def space_units at_sign_def full_stop_def)
  have p: "lit ''a@b.c'' \<noteq> []"
    by (simp add: lit_def)
  have v: "(email_field [])\<lparr>field_value := lit '' a@b.c''\<rparr> = email_field (lit '' a@b.c'')"
    by (simp add: email_field_def)
  have "snd (validateField (\<lambda>s. s) (email_field (lit '' a@b.c''))) = True"
    using validateField_result [of "\<lambda>s. s" "email_field []" "lit '' a@b.c''"] s m p v
    by simp
  with r t n e s m p show ?thesis by simp
qed

section \<open>Properties of throttle\<close>







lemma elapse_no_timer:
  "queue w = [] \<Longrightarrow> elapse fire d w = w\<lparr>clock := clock w + d\<rparr>"
  by (simp add: elapse_def)

lemma elapse_not_due:
  "queue w = [(i, due, cb)] \<Longrightarrow> clock w + d < due \<Longrightarrow>
     elapse fire d w = w\<lparr>clock := clock w + d\<rparr>"
  by (simp add: elapse_def)

lemma elapse_due:
  "queue w = [(i, due, cb)] \<Longrightarrow> due \<le> clock w + d \<Longrightarrow>
     elapse fire d w =
       (fire cb (w\<lparr>queue := [], clock := max (clock w) due\<rparr>))\<lparr>clock := clock w + d\<rparr>"
  by (simp add: elapse_def)














section \<open>Properties of debounce\<close>

lemma debounce_idle:
  assumes "vars w = None" "queue w = []"
  shows "debounce wait immediate args w =
     w\<lparr>queue := [(next_id w, clock w + wait, Later args)], next_id := Suc (next_id w),
       vars := Some (next_id w),
       calls := calls w @ (if immediate then [(clock w, args)] else [])\<rparr>"
  using assms by (simp add: debounce_def setTimeout_def apply_func_def)

lemma debounce_pending:
  assumes "vars w = Some i" "queue w = [(i, due, Later x)]"
  shows "debounce wait immediate args w =
     w\<lparr>queue := [(next_id w, clock w + wait, Later args)], next_id := Suc (next_id w),
       vars := Some (next_id w)\<rparr>"
  using assms by (simp add: debounce_def setTimeout_def)

lemma later_fires:
  assumes "vars w = Some i" "queue w = [(i, due, Later x)]" "clock w \<le> due"
    "due \<le> clock w + d"
  shows "elapse (later immediate) d w =
     w\<lparr>queue := [], vars := None, clock := clock w + d,
       calls := calls w @ (if immediate then [] else [(due, x)])\<rparr>"
  using assms by (simp add: elapse_due apply_func_def max_def)

lemma debounce_inv_init: "debounce_inv (init None)"
  by (simp add: debounce_inv_def init_def)

lemma debounce_inv_debounce:
  assumes "debounce_inv w"
  shows "debounce_inv (debounce wait immediate args w)"
proof (cases "vars w")
  case None
  with assms have "queue w = []" by (simp add: debounce_inv_def)
  with None show ?thesis
    by (simp add: debounce_idle debounce_inv_def)
next
  case (Some i)
  with assms obtain due x where "queue w = [(i, due, Later x)]"
    by (auto simp add: debounce_inv_def)
  with Some show ?thesis
    by (simp add: debounce_pending debounce_inv_def)
qed

lemma debounce_inv_elapse:
  assumes "debounce_inv w"
  shows "debounce_inv (elapse (later immediate) d w)"
proof (cases "vars w")
  case None
  with assms have "queue w = []" by (simp add: debounce_inv_def)
  with None show ?thesis
    by (simp add: elapse_no_timer debounce_inv_def)
next
  case (Some i)
  with assms obtain due x where q: "queue w = [(i, due, Later x)]"
    by (auto simp add: debounce_inv_def)
  show ?thesis
  proof (cases "due \<le> clock w + d")
    case True
    with q show ?thesis
      by (simp add: elapse_due debounce_inv_def apply_func_def Let_def)
  next
    case False
    with q Some show ?thesis
      by (simp add: elapse_not_due debounce_inv_def)
  qed
qed

lemma debounce_inv_step:
  "debounce_inv w \<Longrightarrow> debounce_inv (debounce_step wait immediate ev w)"
  by (cases ev) (simp_all add: debounce_inv_debounce debounce_inv_elapse)

lemma debounce_inv_fold:
  "debounce_inv w \<Longrightarrow> debounce_inv (fold (debounce_step wait immediate) evs w)"
  by (induction evs arbitrary: w) (simp_all add: debounce_inv_step)

lemma debounce_inv_run: "debounce_inv (debounce_run wait immediate evs)"
  by (simp add: debounce_run_def debounce_inv_fold debounce_inv_init)

lemma debounce_run_append:
  "debounce_run wait immediate (evs @ evs') =
     fold (debounce_step wait immediate) evs' (debounce_run wait immediate evs)"
  by (simp add: debounce_run_def)

lemma burst_pending:
  assumes "vars w = Some i" "queue w = [(i, clock w + wait, Later a)]"
    "\<forall>(gap, x)\<in>set rest. gap < wait"
  shows "\<exists>j. vars (fold (debounce_step wait immediate) (burst rest) w) = Some j \<and>
           queue (fold (debounce_step wait immediate) (burst rest) w) =
             [(j, clock w + sum_list (map fst rest) + wait, Later (last (a # map snd rest)))] \<and>
           clock (fold (debounce_step wait immediate) (burst rest) w) =
             clock w + sum_list (map fst rest) \<and>
           calls (fold (debounce_step wait immediate) (burst rest) w) = calls w"
  using assms
proof (induction rest arbitrary: w i a)
  case Nil
  then show ?case by simp
next
  case (Cons p rest)
  obtain gap x where p: "p = (gap, x)" by (cases p)
  with Cons.prems have g: "gap < wait" and r: "\<forall>(gap, x)\<in>set rest. gap < wait"
    by simp_all
  let ?w1 = "w\<lparr>clock := clock w + gap\<rparr>"
  have e: "elapse (later immediate) gap w = ?w1"
    using Cons.prems(2) g by (simp add: elapse_not_due)
  let ?w2 = "debounce wait immediate x ?w1"
  have d: "?w2 = ?w1\<lparr>queue := [(next_id w, clock w + gap + wait, Later x)],
      next_id := Suc (next_id w), vars := Some (next_id w)\<rparr>"
    using Cons.prems(1,2) debounce_pending [of ?w1 i "clock w + wait" a wait immediate x]
    by simp
  have v: "vars ?w2 = Some (next_id w)"
    and q: "queue ?w2 = [(next_id w, clock ?w2 + wait, Later x)]"
    and c: "clock ?w2 = clock w + gap" "calls ?w2 = calls w"
    unfolding d by simp_all
  from Cons.IH [OF v q r] c
  have "\<exists>j. vars (fold (debounce_step wait immediate) (burst rest) ?w2) = Some j \<and>
           queue (fold (debounce_step wait immediate) (burst rest) ?w2) =
             [(j, clock w + gap + sum_list (map fst rest) + wait,
               Later (last (x # map snd rest)))] \<and>
           clock (fold (debounce_step wait immediate) (burst rest) ?w2) =
             clock w + gap + sum_list (map fst rest) \<and>
           calls (fold (debounce_step wait immediate) (burst rest) ?w2) = calls w"
    by simp
  then show ?case
    unfolding p by (simp add: e add.assoc)
qed

lemma burst_idle:
  assumes "vars w = None" "queue w = []" "\<forall>(gap, x)\<in>set rest. gap < wait"
  shows "\<exists>j. vars (fold (debounce_step wait immediate) (Invoke a # burst rest) w) = Some j \<and>
           queue (fold (debounce_step wait immediate) (Invoke a # burst rest) w) =
             [(j, clock w + sum_list (map fst rest) + wait, Later (last (a # map snd rest)))] \<and>
           clock (fold (debounce_step wait immediate) (Invoke a # burst rest) w) =
             clock w + sum_list (map fst rest) \<and>
           calls (fold (debounce_step wait immediate) (Invoke a # burst rest) w) =
             calls w @ (if immediate then [(clock w, a)] else [])"
proof -
  let ?w1 = "debounce wait immediate a w"
  have d: "?w1 = w\<lparr>queue := [(next_id w, clock w + wait, Later a)],
      next_id := Suc (next_id w), vars := Some (next_id w),
      calls := calls w @ (if immediate then [(clock w, a)] else [])\<rparr>"
    using assms(1,2) by (rule debounce_idle)
  have v: "vars ?w1 = Some (next_id w)"
    and q: "queue ?w1 = [(next_id w, clock ?w1 + wait, Later a)]"
    and c: "clock ?w1 = clock w"
      "calls ?w1 = calls w @ (if immediate then [(clock w, a)] else [])"
    unfolding d by simp_all
  from burst_pending [OF v q assms(3), of immediate] c show ?thesis
    by simp
qed

lemma debounce_reschedules:
  assumes "debounce_inv w"
  shows "queue (debounce wait immediate x w) = [(next_id w, clock w + wait, Later x)]"
proof (cases "vars w")
  case None
  with assms have "queue w = []" by (simp add: debounce_inv_def)
  with None show ?thesis by (simp add: debounce_idle)
next
  case (Some i)
  with assms obtain due y where "queue w = [(i, due, Later y)]"
    by (auto simp add: debounce_inv_def)
  with Some show ?thesis by (simp add: debounce_pending)
qed

lemma debounce_run_idle:
  "vars (debounce_run wait immediate evs) = None \<Longrightarrow>
     queue (debounce_run wait immediate evs) = []"
  using debounce_inv_run [of wait immediate evs] by (simp add: debounce_inv_def)

lemma burst_run:
  assumes "vars (debounce_run wait immediate evs) = None"
    "\<forall>(gap, x)\<in>set rest. gap < wait"
  shows "\<exists>j. vars (debounce_run wait immediate (evs @ Invoke a # burst rest)) = Some j \<and>
           queue (debounce_run wait immediate (evs @ Invoke a # burst rest)) =
             [(j, clock (debounce_run wait immediate evs) + sum_list (map fst rest) + wait,
               Later (last (a # map snd rest)))] \<and>
           clock (debounce_run wait immediate (evs @ Invoke a # burst rest)) =
             clock (debounce_run wait immediate evs) + sum_list (map fst rest) \<and>
           calls (debounce_run wait immediate (evs @ Invoke a # burst rest)) =
             calls (debounce_run wait immediate evs) @
               (if immediate then [(clock (debounce_run wait immediate evs), a)] else [])"
  unfolding debounce_run_append
  using assms(1) debounce_run_idle [OF assms(1)] assms(2) by (rule burst_idle)

text \<open>
  Claim C8. With \<open>immediate\<close> unset, a burst of invocations that starts when no deferred
  call is pending calls \<open>func\<close> zero times synchronously and leaves exactly one pending
  deferred call, that of its last invocation; \<open>func\<close> is called exactly once, \<open>wait\<close>
  milliseconds after the last invocation of the burst, with its arguments, and not
  before. Every invocation replaces whatever deferred call is pending by a new one.
\<close>

theorem debounce_trailing_edge:
  assumes "vars (debounce_run wait False evs) = None"
    and "\<forall>(gap, x)\<in>set rest. gap < wait"
  shows "calls (debounce_run wait False (evs @ Invoke a # burst rest)) =
           calls (debounce_run wait False evs) \<and>
         (\<exists>j. queue (debounce_run wait False (evs @ Invoke a # burst rest)) =
            [(j, clock (debounce_run wait False evs) + sum_list (map fst rest) + wait,
              Later (last (a # map snd rest)))]) \<and>
         (d < wait \<longrightarrow>
            calls (debounce_run wait False (evs @ Invoke a # burst rest @ [Elapse d])) =
              calls (debounce_run wait False evs)) \<and>
         (wait \<le> d \<longrightarrow>
            calls (debounce_run wait False (evs @ Invoke a # burst rest @ [Elapse d])) =
              calls (debounce_run wait False evs) @
                [(clock (debounce_run wait False evs) + sum_list (map fst rest) + wait,
                  last (a # map snd rest))] \<and>
            calls (debounce_run wait False (evs @ Invoke a # burst rest @ [Elapse d, Elapse d'])) =
              calls (debounce_run wait False evs) @
                [(clock (debounce_run wait False evs) + sum_list (map fst rest) + wait,
                  last (a # map snd rest))]) \<and>
         queue (debounce wait False x (debounce_run wait False evs')) =
           [(next_id (debounce_run wait False evs'),
             clock (debounce_run wait False evs') + wait, Later x)]"
proof -
  let ?w = "debounce_run wait False evs"
  let ?b = "debounce_run wait False (evs @ Invoke a # burst rest)"
  let ?t = "clock ?w + sum_list (map fst rest)"
  let ?a = "last (a # map snd rest)"
  from burst_run [OF assms, of a] obtain j where
    v: "vars ?b = Some j" and q: "queue ?b = [(j, ?t + wait, Later ?a)]" and
    c: "clock ?b = ?t" and l: "calls ?b = calls ?w"
    by auto
  have e: "debounce_run wait False (evs @ Invoke a # burst rest @ [Elapse d]) =
      elapse (later False) d ?b"
    using debounce_run_append [of wait False "evs @ Invoke a # burst rest" "[Elapse d]"]
    by simp
  have e': "debounce_run wait False (evs @ Invoke a # burst rest @ [Elapse d, Elapse d']) =
      elapse (later False) d' (elapse (later False) d ?b)"
    using debounce_run_append [of wait False "evs @ Invoke a # burst rest" "[Elapse d, Elapse d']"]
    by simp
  have early: "d < wait \<longrightarrow> calls (elapse (later False) d ?b) = calls ?w"
    using q c l by (simp add: elapse_not_due)
  have fired: "wait \<le> d \<longrightarrow>
      elapse (later False) d ?b =
        ?b\<lparr>queue := [], vars := None, clock := clock ?b + d,
          calls := calls ?b @ [(?t + wait, ?a)]\<rparr>"
    using later_fires [OF v q, of d False] c by simp
  have late: "wait \<le> d \<longrightarrow>
      calls (elapse (later False) d ?b) = calls ?w @ [(?t + wait, ?a)] \<and>
      calls (elapse (later False) d' (elapse (later False) d ?b)) =
        calls ?w @ [(?t + wait, ?a)]"
    using fired l by (simp add: elapse_no_timer)
  have resched: "queue (debounce wait False x (debounce_run wait False evs')) =
           [(next_id (debounce_run wait False evs'),
             clock (debounce_run wait False evs') + wait, Later x)]"
    using debounce_inv_run by (rule debounce_reschedules)
  show ?thesis
    unfolding e e' using l q early late resched by blast
qed

theorem debounce_trailing_edge_witness:
  "vars (debounce_run 100 False ([] :: nat event list)) = None \<and>
   (100::nat) \<le> 150 \<and> (50::nat) < 100 \<and>
   calls (debounce_run 100 False [Invoke (1::nat), Elapse 0, Invoke 2, Elapse 0, Invoke 3]) = [] \<and>
   calls (debounce_run 100 False
     [Invoke (1::nat), Elapse 0, Invoke 2, Elapse 0, Invoke 3, Elapse 50]) = [] \<and>
   calls (debounce_run 100 False
     [Invoke (1::nat), Elapse 0, Invoke 2, Elapse 0, Invoke 3, Elapse 150]) = [(100, 3)]"
proof -
  have i: "vars (debounce_run 100 False ([] :: nat event list)) = None"
    by (simp add: debounce_run_def init_def)
  have g: "\<forall>(gap, x)\<in>set [(0, 2::nat), (0, 3)]. gap < (100::nat)"
    by simp
  have h: "(100::nat) \<le> 150" "(50::nat) < 100" by simp_all
  have c: "calls (debounce_run 100 False ([] :: nat event list)) = []"
    "clock (debounce_run 100 False ([] :: nat event list)) = 0"
    by (simp_all add: debounce_run_def init_def)
  note t = debounce_trailing_edge [OF i g, where a = 1 and d = 150 and d' = 0
      and x = "0::nat" and evs' = "[]"]
  note u = debounce_trailing_edge [OF i g, where a = 1 and d = 50 and d' = 0
      and x = "0::nat" and evs' = "[]"]
  from t u h c i show ?thesis by auto
qed

text \<open>
  Claim C9. With \<open>immediate\<close> true, the first invocation of a burst, arriving when no
  deferred call is pending, calls \<open>func\<close> once, synchronously, with its arguments; the
  further invocations of the burst call nothing, and no trailing call follows however
  long the event loop runs. After \<open>wait\<close> milliseconds of quiet the next invocation
  starts a new burst.
\<close>

theorem debounce_leading_edge:
  assumes "vars (debounce_run wait True evs) = None"
    and "\<forall>(gap, x)\<in>set rest. gap < wait"
  shows "calls (debounce_run wait True (evs @ Invoke a # burst rest)) =
           calls (debounce_run wait True evs) @ [(clock (debounce_run wait True evs), a)] \<and>
         calls (debounce_run wait True (evs @ Invoke a # burst rest @ [Elapse d])) =
           calls (debounce_run wait True evs) @ [(clock (debounce_run wait True evs), a)] \<and>
         (wait \<le> d \<longrightarrow>
            vars (debounce_run wait True (evs @ Invoke a # burst rest @ [Elapse d])) = None \<and>
            calls (debounce_run wait True (evs @ Invoke a # burst rest @ [Elapse d, Invoke b])) =
              calls (debounce_run wait True evs) @
                [(clock (debounce_run wait True evs), a),
                 (clock (debounce_run wait True evs) + sum_list (map fst rest) + d, b)])"
proof -
  let ?w = "debounce_run wait True evs"
  let ?b = "debounce_run wait True (evs @ Invoke a # burst rest)"
  let ?t = "clock ?w + sum_list (map fst rest)"
  let ?a = "last (a # map snd rest)"
  from burst_run [OF assms, of a] obtain j where
    v: "vars ?b = Some j" and q: "queue ?b = [(j, ?t + wait, Later ?a)]" and
    c: "clock ?b = ?t" and l: "calls ?b = calls ?w @ [(clock ?w, a)]"
    by auto
  have e: "debounce_run wait True (evs @ Invoke a # burst rest @ [Elapse d]) =
      elapse (later True) d ?b"
    using debounce_run_append [of wait True "evs @ Invoke a # burst rest" "[Elapse d]"]
    by simp
  have e': "debounce_run wait True (evs @ Invoke a # burst rest @ [Elapse d, Invoke b]) =
      debounce wait True b (elapse (later True) d ?b)"
    using debounce_run_append [of wait True "evs @ Invoke a # burst rest" "[Elapse d, Invoke b]"]
    by simp
  have fired: "wait \<le> d \<longrightarrow>
      elapse (later True) d ?b = ?b\<lparr>queue := [], vars := None, clock := clock ?b + d\<rparr>"
    using later_fires [OF v q, of d True] c by simp
  have quiet: "calls (elapse (later True) d ?b) = calls ?w @ [(clock ?w, a)]"
  proof (cases "wait \<le> d")
    case True
    with fired l show ?thesis by simp
  next
    case False
    with q c l show ?thesis by (simp add: elapse_not_due)
  qed
  have again: "wait \<le> d \<longrightarrow>
      vars (elapse (later True) d ?b) = None \<and>
      calls (debounce wait True b (elapse (later True) d ?b)) =
        calls ?w @ [(clock ?w, a), (?t + d, b)]"
    using fired l c by (simp add: debounce_idle)
  show ?thesis
    unfolding e e' using l quiet again by blast
qed

theorem debounce_leading_edge_witness:
  "vars (debounce_run 100 True ([] :: nat event list)) = None \<and>
   (100::nat) \<le> 150 \<and>
   calls (debounce_run 100 True [Invoke (1::nat), Elapse 0, Invoke 2, Elapse 0, Invoke 3]) =
     [(0, 1)] \<and>
   calls (debounce_run 100 True
     [Invoke (1::nat), Elapse 0, Invoke 2, Elapse 0, Invoke 3, Elapse 150]) = [(0, 1)] \<and>
   calls (debounce_run 100 True
     [Invoke (1::nat), Elapse 0, Invoke 2, Elapse 0, Invoke 3, Elapse 150, Invoke 4]) =
     [(0, 1), (150, 4)]"
proof -
  have i: "vars (debounce_run 100 True ([] :: nat event list)) = None"
    by (simp add: debounce_run_def init_def)
  have g: "\<forall>(gap, x)\<in>set [(0, 2::nat), (0, 3)]. gap < (100::nat)"
    by simp
  have h: "(100::nat) \<le> 150" by simp
  have c: "calls (debounce_run 100 True ([] :: nat event list)) = []"
    "clock (debounce_run 100 True ([] :: nat event list)) = 0"
    by (simp_all add: debounce_run_def init_def)
  note t = debounce_leading_edge [OF i g, where a = 1 and d = 150 and b = 4]
  from t h c i show ?thesis by auto
qed

end
